theory Spec2Isabelle
  imports Complex_Main "HOL-Library.Multiset"
begin

section \<open>Values of the JavaScript program\<close>

text \<open>
  The location service receives its input as parsed JSON and works on JavaScript numbers.
  A number is a double: not-a-number, one of the two infinities, or a finite value.
\<close>

datatype number = NaN | NegInfinity | Finite real | Infinity

text \<open>The comparison \<^verbatim>\<open>a <= b\<close> on numbers: false as soon as one side is NaN.\<close>

fun js_le :: "number \<Rightarrow> number \<Rightarrow> bool" where
  "js_le NaN b = False"
| "js_le a NaN = False"
| "js_le NegInfinity b = True"
| "js_le a Infinity = True"
| "js_le (Finite x) (Finite y) = (x \<le> y)"
| "js_le a b = False"

text \<open>
  A value of the request body. \<open>JUndefined\<close> is the value of a property that is absent.
\<close>

datatype json =
    JUndefined
  | JNull
  | JBool bool
  | JNum number
  | JStr string
  | JArr "json list"
  | JObj "(string \<times> json) list"

text \<open>The negation \<^verbatim>\<open>!v\<close> is true exactly on the values that are not truthy.\<close>

fun truthy :: "json \<Rightarrow> bool" where
  "truthy JUndefined = False"
| "truthy JNull = False"
| "truthy (JBool b) = b"
| "truthy (JNum n) = (n \<noteq> NaN \<and> n \<noteq> Finite 0)"
| "truthy (JStr s) = (s \<noteq> [])"
| "truthy (JArr xs) = True"
| "truthy (JObj kvs) = True"

fun isArray :: "json \<Rightarrow> bool" where
  "isArray (JArr xs) = True"
| "isArray v = False"

text \<open>The elements of an array value; the handler reads them only behind \<open>isArray\<close>.\<close>

fun array_items :: "json \<Rightarrow> json list" where
  "array_items (JArr xs) = xs"
| "array_items v = []"

text \<open>Reading \<^verbatim>\<open>xs[i]\<close> from an array: \<^verbatim>\<open>undefined\<close> beyond its end.\<close>

definition js_at :: "json list \<Rightarrow> nat \<Rightarrow> json" where
  "js_at xs i = (if i < length xs then xs ! i else JUndefined)"

section \<open>Data of the location service\<close>

datatype status = Inside | Outside | Unknown

datatype trigger = Enter | Exit | NoTrigger

text \<open>
  Every exception raised inside the \<^verbatim>\<open>try\<close> block ends in the same \<^verbatim>\<open>catch\<close>:
  the request to the geofence service failed, or the geometry library refused its
  arguments.
\<close>

datatype error = LookupFailed | GeometryError

text \<open>
  A geofence as the geofence service stores and returns it: the identifier it drew from
  its counter (\<^verbatim>\<open>id\<close>), the owner, the name, the centre
  \<^verbatim>\<open>[latitude, longitude]\<close> and the radius in metres. The geofence service stores
  the centre and the radius as the client sent them; the model takes the centre to be an
  array, with any elements, and the radius to be a number.
\<close>

record fence =
  fence_id :: nat
  userId :: nat
  name :: string
  center :: "json list"
  radius :: number

text \<open>
  The geometry library (Turf.js) is not part of the repository. The handler uses two of
  its functions, which the model takes as a parameter: \<open>point\<close> builds a point from
  \<^verbatim>\<open>[longitude, latitude]\<close>, or throws when it does not accept the coordinates;
  \<open>distance\<close> measures two points in metres.
\<close>

record 'p turf =
  point :: "json list \<Rightarrow> error + 'p"
  distance :: "'p \<Rightarrow> 'p \<Rightarrow> number"

text \<open>The body of the \<^verbatim>\<open>200\<close> response.\<close>

record transition_result =
  trigger :: trigger
  status :: status
  fenceId :: "nat option"

datatype response =
    Status400
  | Status200 transition_result
  | Status500

text \<open>The table \<^verbatim>\<open>userStates\<close>: the last status written for each user id.\<close>

type_synonym user_states = "nat \<rightharpoonup> status"

section \<open>The handler of POST /location\<close>

text \<open>The guard that answers \<^verbatim>\<open>400\<close>.\<close>

definition location_invalid :: "json \<Rightarrow> bool" where
  "location_invalid location \<longleftrightarrow>
     \<not> truthy location \<or> \<not> isArray location \<or> length (array_items location) \<noteq> 2"

text \<open>
  The test made on one fence inside the loop: the centre becomes a point, the distance
  to the user's point is measured and compared with the radius.
\<close>

definition isWithin :: "'p turf \<Rightarrow> 'p \<Rightarrow> fence \<Rightarrow> error + bool" where
  "isWithin T userPoint fence =
     (case point T [js_at (center fence) 1, js_at (center fence) 0] of
        Inl e \<Rightarrow> Inl e
      | Inr fenceCenter \<Rightarrow>
          Inr (js_le (distance T userPoint fenceCenter) (radius fence)))"

text \<open>
  The loop over the fences. It returns the final values of \<^verbatim>\<open>isInsideAnyFence\<close>
  and \<^verbatim>\<open>fenceId\<close>; the \<^verbatim>\<open>break\<close> is the branch that does not recurse.
\<close>

fun scan_fences :: "'p turf \<Rightarrow> 'p \<Rightarrow> fence list \<Rightarrow> error + (bool \<times> nat option)" where
  "scan_fences T userPoint [] = Inr (False, None)"
| "scan_fences T userPoint (fence # rest) =
     (case isWithin T userPoint fence of
        Inl e \<Rightarrow> Inl e
      | Inr inside \<Rightarrow>
          if inside then Inr (True, Some (fence_id fence))
          else scan_fences T userPoint rest)"

text \<open>The last known status: \<^verbatim>\<open>userStates[userId] || "unknown"\<close>.\<close>

definition previous_status :: "user_states \<Rightarrow> nat \<Rightarrow> status" where
  "previous_status userStates uid =
     (case userStates uid of None \<Rightarrow> Unknown | Some s \<Rightarrow> s)"

text \<open>The two tests that set \<^verbatim>\<open>trigger\<close>.\<close>

definition classify :: "status \<Rightarrow> status \<Rightarrow> trigger" where
  "classify currentStatus previousStatus =
     (if currentStatus = Inside \<and> previousStatus \<noteq> Inside then Enter
      else if currentStatus = Outside \<and> previousStatus = Inside then Exit
      else NoTrigger)"

text \<open>
  Steps 3 to 6 of the handler, once the fences have arrived: the result and the table
  after the write, or the exception.
\<close>

definition detect ::
  "'p turf \<Rightarrow> user_states \<Rightarrow> nat \<Rightarrow> json \<Rightarrow> fence list
     \<Rightarrow> error + (transition_result \<times> user_states)" where
  "detect T userStates uid location geofences =
     (case point T [js_at (array_items location) 1, js_at (array_items location) 0] of
        Inl e \<Rightarrow> Inl e
      | Inr userPoint \<Rightarrow>
          (case scan_fences T userPoint geofences of
             Inl e \<Rightarrow> Inl e
           | Inr (isInsideAnyFence, fid) \<Rightarrow>
               let currentStatus = (if isInsideAnyFence then Inside else Outside);
                   previousStatus = previous_status userStates uid;
                   trg = classify currentStatus previousStatus
               in Inr (\<lparr>trigger = trg, status = currentStatus,
                         fenceId = (if trg = Enter then fid else None)\<rparr>,
                       userStates(uid \<mapsto> currentStatus))))"

text \<open>
  The \<^verbatim>\<open>try\<close> block with its \<^verbatim>\<open>catch\<close>, from the moment the request to the
  geofence service settles: \<open>reply\<close> is the array it returned, or the failure.
\<close>

definition after_fetch ::
  "'p turf \<Rightarrow> user_states \<Rightarrow> nat \<Rightarrow> json \<Rightarrow> error + fence list
     \<Rightarrow> response \<times> user_states" where
  "after_fetch T userStates uid location reply =
     (case reply of
        Inl e \<Rightarrow> (Status500, userStates)
      | Inr geofences \<Rightarrow>
          (case detect T userStates uid location geofences of
             Inl e \<Rightarrow> (Status500, userStates)
           | Inr (r, userStates') \<Rightarrow> (Status200 r, userStates')))"

text \<open>
  The whole handler for an authenticated user. The geofence service is asked only when
  the guard lets the location through.
\<close>

definition post_location ::
  "'p turf \<Rightarrow> user_states \<Rightarrow> nat \<Rightarrow> json \<Rightarrow> error + fence list
     \<Rightarrow> response \<times> user_states" where
  "post_location T userStates uid location reply =
     (if location_invalid location then (Status400, userStates)
      else after_fetch T userStates uid location reply)"

section \<open>Several reports, one after the other\<close>

text \<open>
  A call is the user, the \<^verbatim>\<open>location\<close> of the body and what the geofence
  service answers when it is asked. \<open>serve\<close> runs the handler on each call in turn,
  on the table the call before it left.
\<close>

type_synonym call = "nat \<times> json \<times> (error + fence list)"

fun serve :: "'p turf \<Rightarrow> call list \<Rightarrow> user_states \<Rightarrow> response list \<times> user_states" where
  "serve T [] userStates = ([], userStates)"
| "serve T ((uid, location, reply) # calls) userStates =
     (case post_location T userStates uid location reply of
        (r, userStates') \<Rightarrow>
          (case serve T calls userStates' of
             (rs, userStates'') \<Rightarrow> (r # rs, userStates'')))"

section \<open>The geofence service's GET /geofences\<close>

text \<open>
  The geofence service keeps its fences in one array, in the order of creation, and
  answers with those of the user, in that order.
\<close>

definition get_geofences :: "fence list \<Rightarrow> nat \<Rightarrow> fence list" where
  "get_geofences geofences uid = filter (\<lambda>fence. userId fence = uid) geofences"

section \<open>Requests in flight\<close>

text \<open>
  The handler is an \<^verbatim>\<open>async\<close> function with a single \<^verbatim>\<open>await\<close>, on the request
  to the geofence service. The process runs one piece of JavaScript at a time, to its
  end: a request is handled in two pieces, from its arrival to the \<^verbatim>\<open>await\<close>
  (the guard, then the request to the geofence service is sent), and from the moment
  that request settles to the response. Pieces of different requests follow each other
  in any order.

  The server is the table, the requests that wait for the geofence service (request
  number, user, location) and the responses sent so far (request number, user,
  response), oldest first.
\<close>

datatype event =
    Arrive nat nat json
  | Settle nat "error + fence list"

record server =
  table :: user_states
  pending :: "(nat \<times> nat \<times> json) list"
  sent :: "(nat \<times> nat \<times> response) list"

definition boot :: server where
  "boot = \<lparr>table = Map.empty, pending = [], sent = []\<rparr>"

fun step :: "'p turf \<Rightarrow> server \<Rightarrow> event \<Rightarrow> server" where
  "step T s (Arrive rid uid location) =
     (if location_invalid location
      then s\<lparr>sent := sent s @ [(rid, uid, Status400)]\<rparr>
      else s\<lparr>pending := pending s @ [(rid, uid, location)]\<rparr>)"
| "step T s (Settle rid reply) =
     (case find (\<lambda>entry. fst entry = rid) (pending s) of
        None \<Rightarrow> s
      | Some (rid', uid, location) \<Rightarrow>
          (case after_fetch T (table s) uid location reply of
             (r, userStates') \<Rightarrow>
               \<lparr>table = userStates',
                pending = remove1 (rid', uid, location) (pending s),
                sent = sent s @ [(rid, uid, r)]\<rparr>))"

definition run :: "'p turf \<Rightarrow> server \<Rightarrow> event list \<Rightarrow> server" where
  "run T s events = foldl (step T) s events"

text \<open>
  The requests that arrived, and what it means for a list of calls, each with the number
  of its request, to account for a state of the server: run one after the other from the
  empty table they give the responses sent, in that order, and the table; they carry the
  request numbers and users of the responses; and every request that arrived is either
  among them, once, or still waiting.
\<close>

fun arrived :: "event list \<Rightarrow> (nat \<times> nat \<times> json) list" where
  "arrived [] = []"
| "arrived (Arrive rid uid location # events) = (rid, uid, location) # arrived events"
| "arrived (Settle rid reply # events) = arrived events"

definition serialises :: "'p turf \<Rightarrow> (nat \<times> call) list \<Rightarrow> event list \<Rightarrow> server \<Rightarrow> bool" where
  "serialises T calls events s \<longleftrightarrow>
      serve T (map snd calls) Map.empty = (map (snd \<circ> snd) (sent s), table s)
    \<and> map (\<lambda>(rid, uid, location, reply). (rid, uid)) calls
        = map (\<lambda>(rid, uid, r). (rid, uid)) (sent s)
    \<and> mset (map (\<lambda>(rid, uid, location, reply). (rid, uid, location)) calls) + mset (pending s)
        = mset (arrived events)"

text \<open>
  The \<^verbatim>\<open>enter\<close> and \<^verbatim>\<open>exit\<close> events of one user, in the order of the responses.
\<close>

fun edges :: "nat \<Rightarrow> (nat \<times> nat \<times> response) list \<Rightarrow> trigger list" where
  "edges u [] = []"
| "edges u ((rid, uid, Status200 r) # rest) =
     (if uid = u \<and> trigger r \<noteq> NoTrigger then trigger r # edges u rest
      else edges u rest)"
| "edges u ((rid, uid, other) # rest) = edges u rest"

section \<open>Examples to run\<close>

text \<open>
  A stand-in for the geometry library, to run the handler on concrete reports. A point is
  made of two finite numbers; coordinates that are not numbers are refused, as
  \<^verbatim>\<open>turf.point\<close> refuses them (\<^verbatim>\<open>coordinates must contain numbers\<close>). The
  distance follows the grid, 111195 metres to the degree.
\<close>

definition grid_turf :: "(real \<times> real) turf" where
  "grid_turf =
     \<lparr>point = (\<lambda>cs. case cs of
                 [JNum (Finite x), JNum (Finite y)] \<Rightarrow> Inr (x, y)
               | _ \<Rightarrow> Inl GeometryError),
      distance = (\<lambda>(x1, y1) (x2, y2). Finite (111195 * (\<bar>x1 - x2\<bar> + \<bar>y1 - y2\<bar>)))\<rparr>"

text \<open>Two fences of user 7 around the same centre, and two reports.\<close>

definition fenceA :: fence where
  "fenceA = \<lparr>fence_id = 1, userId = 7, name = ''home'',
              center = [JNum (Finite 51.505), JNum (Finite (-0.09))], radius = Finite 500\<rparr>"

definition fenceB :: fence where
  "fenceB = \<lparr>fence_id = 2, userId = 7, name = ''town'',
              center = [JNum (Finite 51.505), JNum (Finite (-0.09))], radius = Finite 20000\<rparr>"

definition at_center :: json where
  "at_center = JArr [JNum (Finite 51.505), JNum (Finite (-0.09))]"

definition far_away :: json where
  "far_away = JArr [JNum (Finite 51.60), JNum (Finite (-0.09))]"

text \<open>A report outside the ranges of latitude and longitude, and a fence without a centre.\<close>

definition out_of_range :: json where
  "out_of_range = JArr [JNum (Finite 91), JNum (Finite 181)]"

definition broken_fence :: fence where
  "broken_fence = \<lparr>fence_id = 3, userId = 7, name = ''lost'',
                    center = [JStr ''north''], radius = NaN\<rparr>"

text \<open>
  Two reports of user 7 from the centre of fence 1, both waiting for the geofence service
  at the same time; the second is answered first.
\<close>

definition racing :: "event list" where
  "racing = [Arrive 1 7 at_center, Arrive 2 7 at_center,
             Settle 2 (Inr [fenceA]), Settle 1 (Inr [fenceA])]"

section \<open>Basic facts\<close>

lemma detect_result:
  assumes "detect T userStates uid location geofences = Inr (r, userStates')"
  shows "userStates' = userStates(uid \<mapsto> status r)"
    and "status r = Inside \<or> status r = Outside"
    and "trigger r = classify (status r) (previous_status userStates uid)"
  using assms
  by (auto simp: detect_def Let_def split: sum.splits prod.splits if_splits)

lemma post_location_200:
  assumes "post_location T userStates uid location reply = (Status200 r, userStates')"
  shows "\<exists>geofences. reply = Inr geofences \<and> \<not> location_invalid location
           \<and> detect T userStates uid location geofences = Inr (r, userStates')"
  using assms
  by (auto simp: post_location_def after_fetch_def split: if_splits sum.splits prod.splits)

lemma scan_fences_first_match:
  "\<forall>g\<in>set pre. isWithin T p g = Inr False \<Longrightarrow> isWithin T p f = Inr True
     \<Longrightarrow> scan_fences T p (pre @ f # post) = Inr (True, Some (fence_id f))"
  by (induction pre) auto

lemma scan_fences_no_match:
  "\<forall>g\<in>set fs. isWithin T p g = Inr False \<Longrightarrow> scan_fences T p fs = Inr (False, None)"
  by (induction fs) auto

lemma scan_fences_found:
  "scan_fences T p fs = Inr (True, i) \<Longrightarrow>
     \<exists>pre f post. fs = pre @ f # post \<and> (\<forall>g\<in>set pre. isWithin T p g = Inr False)
        \<and> isWithin T p f = Inr True \<and> i = Some (fence_id f)"
proof (induction fs)
  case Nil
  then show ?case by simp
next
  case (Cons a fs)
  show ?case
  proof (cases "isWithin T p a")
    case (Inl e)
    with Cons.prems show ?thesis by simp
  next
    case (Inr b)
    show ?thesis
    proof (cases b)
      case True
      with Inr Cons.prems
      have "a # fs = [] @ a # fs \<and> (\<forall>g\<in>set []. isWithin T p g = Inr False)
              \<and> isWithin T p a = Inr True \<and> i = Some (fence_id a)"
        by simp
      then show ?thesis by blast
    next
      case False
      with Inr Cons.prems have "scan_fences T p fs = Inr (True, i)" by simp
      from Cons.IH [OF this] obtain pre f post where
        h: "fs = pre @ f # post" "\<forall>g\<in>set pre. isWithin T p g = Inr False"
           "isWithin T p f = Inr True" "i = Some (fence_id f)"
        by blast
      from h False Inr
      have "a # fs = (a # pre) @ f # post
              \<and> (\<forall>g\<in>set (a # pre). isWithin T p g = Inr False)
              \<and> isWithin T p f = Inr True \<and> i = Some (fence_id f)"
        by simp
      then show ?thesis by blast
    qed
  qed
qed

lemma scan_fences_missed:
  "scan_fences T p fs = Inr (False, i) \<Longrightarrow>
     i = None \<and> (\<forall>g\<in>set fs. isWithin T p g = Inr False)"
  by (induction fs) (auto split: sum.splits if_splits)

lemma scan_fences_first_throw:
  "\<forall>g\<in>set pre. isWithin T p g = Inr False \<Longrightarrow> isWithin T p f = Inl e
     \<Longrightarrow> scan_fences T p (pre @ f # post) = Inl e"
  by (induction pre) auto

lemma scan_fences_threw:
  "scan_fences T p fs = Inl e \<Longrightarrow>
     \<exists>pre f post. fs = pre @ f # post \<and> (\<forall>g\<in>set pre. isWithin T p g = Inr False)
        \<and> isWithin T p f = Inl e"
proof (induction fs)
  case Nil
  then show ?case by simp
next
  case (Cons a fs)
  show ?case
  proof (cases "isWithin T p a")
    case (Inl e')
    with Cons.prems
    have "a # fs = [] @ a # fs \<and> (\<forall>g\<in>set []. isWithin T p g = Inr False)
            \<and> isWithin T p a = Inl e"
      by simp
    then show ?thesis by blast
  next
    case (Inr b)
    with Cons.prems have nb: "\<not> b" and rest: "scan_fences T p fs = Inl e"
      by (auto split: if_splits)
    from Cons.IH [OF rest] obtain pre f post where
      h: "fs = pre @ f # post" "\<forall>g\<in>set pre. isWithin T p g = Inr False"
         "isWithin T p f = Inl e"
      by blast
    from h nb Inr
    have "a # fs = (a # pre) @ f # post
            \<and> (\<forall>g\<in>set (a # pre). isWithin T p g = Inr False)
            \<and> isWithin T p f = Inl e"
      by simp
    then show ?thesis by blast
  qed
qed

lemma post_location_refused:
  assumes "\<not> location_invalid location"
    and "point T [js_at (array_items location) 1, js_at (array_items location) 0] = Inl e"
  shows "post_location T st uid location (Inr fs) = (Status500, st)"
  using assms by (simp add: post_location_def after_fetch_def detect_def)

lemma post_location_threw:
  assumes "\<not> location_invalid location"
    and "point T [js_at (array_items location) 1, js_at (array_items location) 0] = Inr p"
    and "scan_fences T p fs = Inl e"
  shows "post_location T st uid location (Inr fs) = (Status500, st)"
  using assms by (simp add: post_location_def after_fetch_def detect_def)

lemmas handler_defs =
  post_location_def location_invalid_def after_fetch_def detect_def
  js_at_def isWithin_def previous_status_def classify_def

lemmas example_defs =
  grid_turf_def fenceA_def fenceB_def at_center_def far_away_def out_of_range_def
  broken_fence_def racing_def

section \<open>Classification of the trigger\<close>

text \<open>
  Claim C1. Whenever the handler answers a report with a result, the trigger follows from
  the status held before for the user and the status of the result: it is \<open>Enter\<close>
  exactly when the status before was not \<open>Inside\<close> and the new one is \<open>Inside\<close>,
  \<open>Exit\<close> exactly when the status before was \<open>Inside\<close> and the new one is
  \<open>Outside\<close>, and \<open>NoTrigger\<close> on every other pair. The status of the result is
  the value the handler has just written into the table for that user.
\<close>

theorem trigger_classification:
  assumes "post_location T st uid location reply = (Status200 r, st')"
  shows "(trigger r = Enter \<longleftrightarrow> previous_status st uid \<noteq> Inside \<and> status r = Inside)
       \<and> (trigger r = Exit \<longleftrightarrow> previous_status st uid = Inside \<and> status r = Outside)
       \<and> (trigger r = NoTrigger \<longleftrightarrow>
            \<not> (previous_status st uid \<noteq> Inside \<and> status r = Inside)
            \<and> \<not> (previous_status st uid = Inside \<and> status r = Outside))
       \<and> st' = st(uid \<mapsto> status r)
       \<and> previous_status st' uid = status r"
proof -
  from post_location_200 [OF assms] obtain geofences where
    d: "detect T st uid location geofences = Inr (r, st')" by blast
  note f = detect_result [OF d]
  from f(2) f(3) have
    "(trigger r = Enter \<longleftrightarrow> previous_status st uid \<noteq> Inside \<and> status r = Inside)"
    "(trigger r = Exit \<longleftrightarrow> previous_status st uid = Inside \<and> status r = Outside)"
    "(trigger r = NoTrigger \<longleftrightarrow>
            \<not> (previous_status st uid \<noteq> Inside \<and> status r = Inside)
            \<and> \<not> (previous_status st uid = Inside \<and> status r = Outside))"
    by (auto simp: classify_def split: if_splits)
  moreover from f(1) have "st' = st(uid \<mapsto> status r)" "previous_status st' uid = status r"
    by (simp_all add: previous_status_def)
  ultimately show ?thesis by blast
qed

theorem trigger_classification_witness:
  "post_location grid_turf Map.empty 7 at_center (Inr [fenceA, fenceB])
     = (Status200 \<lparr>trigger = Enter, status = Inside, fenceId = Some 1\<rparr>, [7 \<mapsto> Inside])
   \<and> previous_status Map.empty 7 \<noteq> Inside
   \<and> previous_status [7 \<mapsto> Inside] 7 = Inside"
proof -
  have h: "post_location grid_turf Map.empty 7 at_center (Inr [fenceA, fenceB])
     = (Status200 \<lparr>trigger = Enter, status = Inside, fenceId = Some 1\<rparr>, [7 \<mapsto> Inside])"
    by (simp add: handler_defs example_defs)
  from trigger_classification [OF h] h show ?thesis by simp
qed

section \<open>Failure of the fence lookup\<close>

lemma after_fetch_failed: "after_fetch T st uid location (Inl e) = (Status500, st)"
  by (simp add: after_fetch_def)

text \<open>
  Claim C2. When the request to the geofence service fails, the handler answers with the
  error of the \<^verbatim>\<open>catch\<close> block (status 500) and the table is the one it found: no
  entry is written, and the status recorded for the user reads the same before and after
  the call. The same holds for a request in flight whose lookup fails.
\<close>

theorem lookup_failure_keeps_state:
  "after_fetch T st uid location (Inl e) = (Status500, st)
   \<and> (\<not> location_invalid location \<longrightarrow>
        post_location T st uid location (Inl e) = (Status500, st))
   \<and> snd (post_location T st uid location (Inl e)) = st
   \<and> previous_status (snd (post_location T st uid location (Inl e))) uid
       = previous_status st uid
   \<and> table (step T s (Settle rid (Inl e))) = table s"
proof -
  have a: "after_fetch T st uid location (Inl e) = (Status500, st)"
    by (rule after_fetch_failed)
  have b: "post_location T st uid location (Inl e) = (Status500, st)"
    if "\<not> location_invalid location"
    using that by (simp add: post_location_def after_fetch_failed)
  have c: "snd (post_location T st uid location (Inl e)) = st"
    by (simp add: post_location_def after_fetch_failed)
  have d: "table (step T s (Settle rid (Inl e))) = table s"
    by (simp add: after_fetch_failed split: option.splits)
  from a b c d show ?thesis by simp
qed

theorem lookup_failure_keeps_state_witness:
  "\<not> location_invalid at_center
   \<and> post_location grid_turf [7 \<mapsto> Inside] 7 at_center (Inl LookupFailed)
       = (Status500, [7 \<mapsto> Inside])"
proof -
  have h: "\<not> location_invalid at_center"
    by (simp add: location_invalid_def at_center_def)
  from lookup_failure_keeps_state [of grid_turf "[7 \<mapsto> Inside]" 7 at_center LookupFailed
      boot 0] h
  show ?thesis by simp
qed

section \<open>The containment test\<close>

lemma js_le_refl: "x \<noteq> NaN \<Longrightarrow> js_le x x"
  by (cases x) simp_all

lemma isWithin_eq:
  "point T [js_at (center f) 1, js_at (center f) 0] = Inr c
     \<Longrightarrow> isWithin T p f = Inr (js_le (distance T p c) (radius f))"
  by (simp add: isWithin_def)

lemma detect_ok:
  assumes "point T [js_at (array_items location) 1, js_at (array_items location) 0] = Inr p"
    and "scan_fences T p fs = Inr (hit, i)"
  shows "detect T st uid location fs =
     Inr (\<lparr>trigger = classify (if hit then Inside else Outside) (previous_status st uid),
           status = (if hit then Inside else Outside),
           fenceId = (if classify (if hit then Inside else Outside) (previous_status st uid) = Enter
                      then i else None)\<rparr>,
          st(uid \<mapsto> (if hit then Inside else Outside)))"
  using assms by (simp add: detect_def Let_def)

lemma post_location_ok:
  assumes "\<not> location_invalid location"
    and "point T [js_at (array_items location) 1, js_at (array_items location) 0] = Inr p"
    and "scan_fences T p fs = Inr (hit, i)"
  shows "post_location T st uid location (Inr fs) =
     (Status200
        \<lparr>trigger = classify (if hit then Inside else Outside) (previous_status st uid),
         status = (if hit then Inside else Outside),
         fenceId = (if classify (if hit then Inside else Outside) (previous_status st uid) = Enter
                    then i else None)\<rparr>,
      st(uid \<mapsto> (if hit then Inside else Outside)))"
  using assms(1) detect_ok [OF assms(2,3)] by (simp add: post_location_def after_fetch_def)

text \<open>
  Claim C3. For a fence whose centre the geometry library accepts as a point, the test
  made on the fence is true exactly when the distance from the user's point to the centre
  is at most the radius. A distance equal to the radius counts as inside: the disk is
  closed. With that fence alone, the handler reports \<open>Inside\<close> exactly in that case.
\<close>

theorem isWithin_closed_disk:
  assumes "point T [js_at (center f) 1, js_at (center f) 0] = Inr c"
  shows "(isWithin T p f = Inr True \<longleftrightarrow> js_le (distance T p c) (radius f))
       \<and> (isWithin T p f = Inr False \<longleftrightarrow> \<not> js_le (distance T p c) (radius f))
       \<and> (distance T p c = Finite d \<and> radius f = Finite r \<longrightarrow>
            (isWithin T p f = Inr True \<longleftrightarrow> d \<le> r))
       \<and> (distance T p c = radius f \<and> radius f \<noteq> NaN \<longrightarrow> isWithin T p f = Inr True)
       \<and> (\<not> location_invalid location
            \<and> point T [js_at (array_items location) 1, js_at (array_items location) 0] = Inr p
            \<longrightarrow> (\<exists>res st'. post_location T st uid location (Inr [f]) = (Status200 res, st')
                   \<and> (status res = Inside \<longleftrightarrow> js_le (distance T p c) (radius f))))"
proof -
  note w = isWithin_eq [OF assms, of p]
  have a: "isWithin T p f = Inr True \<longleftrightarrow> js_le (distance T p c) (radius f)"
    and b: "isWithin T p f = Inr False \<longleftrightarrow> \<not> js_le (distance T p c) (radius f)"
    using w by simp_all
  have c: "distance T p c = Finite d \<and> radius f = Finite r \<longrightarrow>
            (isWithin T p f = Inr True \<longleftrightarrow> d \<le> r)"
    using w by simp
  have d: "distance T p c = radius f \<and> radius f \<noteq> NaN \<longrightarrow> isWithin T p f = Inr True"
    using w js_le_refl [of "radius f"] by simp
  have e: "\<exists>res st'. post_location T st uid location (Inr [f]) = (Status200 res, st')
                   \<and> (status res = Inside \<longleftrightarrow> js_le (distance T p c) (radius f))"
    if v: "\<not> location_invalid location"
      and u: "point T [js_at (array_items location) 1, js_at (array_items location) 0] = Inr p"
  proof -
    have s: "scan_fences T p [f] = Inr (js_le (distance T p c) (radius f),
               if js_le (distance T p c) (radius f) then Some (fence_id f) else None)"
      using w by simp
    from post_location_ok [OF v u s, of st uid] show ?thesis by simp
  qed
  from a b c d e show ?thesis by blast
qed

theorem isWithin_closed_disk_witness:
  "point grid_turf [js_at (center fenceA) 1, js_at (center fenceA) 0] = Inr (-0.09, 51.505)
   \<and> distance grid_turf (-0.09, 52.005) (-0.09, 51.505) = Finite 55597.5
   \<and> isWithin grid_turf (-0.09, 52.005) (fenceA\<lparr>radius := Finite 55597.5\<rparr>) = Inr True
   \<and> isWithin grid_turf (-0.09, 51.60) fenceA = Inr False
   \<and> \<not> location_invalid at_center
   \<and> fst (post_location grid_turf Map.empty 7 at_center (Inr [fenceA]))
        = Status200 \<lparr>trigger = Enter, status = Inside, fenceId = Some 1\<rparr>"
proof -
  have h: "point grid_turf [js_at (center fenceA) 1, js_at (center fenceA) 0]
             = Inr (-0.09, 51.505)"
    by (simp add: example_defs js_at_def)
  have h': "point grid_turf [js_at (center (fenceA\<lparr>radius := Finite 55597.5\<rparr>)) 1,
                            js_at (center (fenceA\<lparr>radius := Finite 55597.5\<rparr>)) 0]
             = Inr (-0.09, 51.505)"
    by (simp add: example_defs js_at_def)
  have d: "distance grid_turf (-0.09, 52.005) (-0.09, 51.505) = Finite 55597.5"
    by (simp add: grid_turf_def)
  have v: "\<not> location_invalid at_center"
    by (simp add: location_invalid_def at_center_def)
  have u: "point grid_turf [js_at (array_items at_center) 1, js_at (array_items at_center) 0]
             = Inr (-0.09, 51.505)"
    by (simp add: example_defs js_at_def)
  have e: "fst (post_location grid_turf Map.empty 7 at_center (Inr [fenceA]))
        = Status200 \<lparr>trigger = Enter, status = Inside, fenceId = Some 1\<rparr>"
    by (simp add: handler_defs example_defs)
  from isWithin_closed_disk [OF h', of "(-0.09, 52.005)" "55597.5" "55597.5"] d
  have 1: "isWithin grid_turf (-0.09, 52.005) (fenceA\<lparr>radius := Finite 55597.5\<rparr>) = Inr True"
    by simp
  from isWithin_closed_disk [OF h, of "(-0.09, 51.60)"]
  have 2: "isWithin grid_turf (-0.09, 51.60) fenceA = Inr False"
    by (simp add: example_defs)
  from h d 1 2 v e show ?thesis by simp
qed

section \<open>The choice among several fences\<close>

lemma get_geofences_first_match:
  assumes "\<forall>g\<in>set pre. userId g = uid \<longrightarrow> isWithin T p g = Inr False"
    and "userId f = uid" and "isWithin T p f = Inr True"
  shows "scan_fences T p (get_geofences (pre @ f # post) uid) = Inr (True, Some (fence_id f))"
proof -
  have "get_geofences (pre @ f # post) uid
          = get_geofences pre uid @ f # get_geofences post uid"
    using assms(2) by (simp add: get_geofences_def)
  moreover have "\<forall>g\<in>set (get_geofences pre uid). isWithin T p g = Inr False"
    using assms(1) by (simp add: get_geofences_def)
  ultimately show ?thesis
    using scan_fences_first_match [OF _ assms(3)] by simp
qed

text \<open>
  Claim C4 says that for every fence list the first fence that contains the point decides.
  The loop tests the fences in order and an exception in a test ends the whole request:
  with a fence without a proper centre stored before fence 1, a report from the centre
  of fence 1 is answered with status 500 and nothing is written, although fence 1 contains
  the point.
\<close>

theorem broken_fence_first_counterexample:
  "\<not> location_invalid at_center
   \<and> point grid_turf [js_at (array_items at_center) 1, js_at (array_items at_center) 0]
       = Inr (-0.09, 51.505)
   \<and> isWithin grid_turf (-0.09, 51.505) fenceA = Inr True
   \<and> isWithin grid_turf (-0.09, 51.505) broken_fence = Inl GeometryError
   \<and> scan_fences grid_turf (-0.09, 51.505) [broken_fence, fenceA] = Inl GeometryError
   \<and> post_location grid_turf [7 \<mapsto> Outside] 7 at_center (Inr [broken_fence, fenceA])
       = (Status500, [7 \<mapsto> Outside])"
  by (simp add: handler_defs example_defs)

text \<open>
  Claim C4, amended. For a report whose location passes the guard and is accepted as a
  point by the geometry library, the fences are tested in the order in which the geofence
  service returned them, up to the first fence whose test is not false. If that fence
  contains the point it decides: the loop ends there with its identifier, whatever
  follows it in the list (fences after it are not looked at, be they malformed), the
  status is \<open>Inside\<close> and a result with trigger \<open>Enter\<close> names that fence. If the
  test of that fence throws, the request is answered with status 500 and nothing is
  written. When the test of every fence is false, the status is \<open>Outside\<close> and no
  fence is named. Conversely, a fence reported by the loop is always the earliest one
  that contains the point, with every test before it false, and an exception of the loop
  is always that of the first fence whose test is not false. Since the geofence service
  returns the user's fences in the order of its own array, the fence chosen is the
  earliest of the user's fences there that contains the point, when the tests of the
  user's fences before it are false.
\<close>

theorem first_match_wins:
  assumes "\<not> location_invalid location"
    and "point T [js_at (array_items location) 1, js_at (array_items location) 0] = Inr p"
  shows "((\<forall>g\<in>set pre. isWithin T p g = Inr False) \<and> isWithin T p f = Inr True \<longrightarrow>
            scan_fences T p (pre @ f # post) = Inr (True, Some (fence_id f))
          \<and> post_location T st uid location (Inr (pre @ f # post)) =
              (Status200 \<lparr>trigger = classify Inside (previous_status st uid),
                          status = Inside,
                          fenceId = (if previous_status st uid \<noteq> Inside
                                     then Some (fence_id f) else None)\<rparr>,
               st(uid \<mapsto> Inside)))
       \<and> ((\<forall>g\<in>set fs. isWithin T p g = Inr False) \<longrightarrow>
            scan_fences T p fs = Inr (False, None)
          \<and> post_location T st uid location (Inr fs) =
              (Status200 \<lparr>trigger = classify Outside (previous_status st uid),
                          status = Outside, fenceId = None\<rparr>,
               st(uid \<mapsto> Outside)))
       \<and> (scan_fences T p fs = Inr (True, i) \<longrightarrow>
            (\<exists>pre f post. fs = pre @ f # post
               \<and> (\<forall>g\<in>set pre. isWithin T p g = Inr False)
               \<and> isWithin T p f = Inr True \<and> i = Some (fence_id f)))
       \<and> (scan_fences T p fs = Inr (False, i) \<longrightarrow>
            i = None \<and> (\<forall>g\<in>set fs. isWithin T p g = Inr False))
       \<and> ((\<forall>g\<in>set pre. userId g = uid \<longrightarrow> isWithin T p g = Inr False)
            \<and> userId f = uid \<and> isWithin T p f = Inr True \<longrightarrow>
            scan_fences T p (get_geofences (pre @ f # post) uid)
              = Inr (True, Some (fence_id f)))
       \<and> ((\<forall>g\<in>set pre. isWithin T p g = Inr False) \<and> isWithin T p f = Inl e \<longrightarrow>
            scan_fences T p (pre @ f # post) = Inl e
          \<and> post_location T st uid location (Inr (pre @ f # post)) = (Status500, st))
       \<and> (scan_fences T p fs = Inl e \<longrightarrow>
            (\<exists>pre f post. fs = pre @ f # post
               \<and> (\<forall>g\<in>set pre. isWithin T p g = Inr False)
               \<and> isWithin T p f = Inl e))"
proof -
  have a: "scan_fences T p (pre @ f # post) = Inr (True, Some (fence_id f))
          \<and> post_location T st uid location (Inr (pre @ f # post)) =
              (Status200 \<lparr>trigger = classify Inside (previous_status st uid),
                          status = Inside,
                          fenceId = (if previous_status st uid \<noteq> Inside
                                     then Some (fence_id f) else None)\<rparr>,
               st(uid \<mapsto> Inside))"
    if h: "\<forall>g\<in>set pre. isWithin T p g = Inr False" "isWithin T p f = Inr True"
  proof -
    have s: "scan_fences T p (pre @ f # post) = Inr (True, Some (fence_id f))"
      using h by (rule scan_fences_first_match)
    from post_location_ok [OF assms s, of st uid] s show ?thesis
      by (simp add: classify_def)
  qed
  have b: "scan_fences T p fs = Inr (False, None)
          \<and> post_location T st uid location (Inr fs) =
              (Status200 \<lparr>trigger = classify Outside (previous_status st uid),
                          status = Outside, fenceId = None\<rparr>,
               st(uid \<mapsto> Outside))"
    if h: "\<forall>g\<in>set fs. isWithin T p g = Inr False"
  proof -
    have s: "scan_fences T p fs = Inr (False, None)"
      using h by (rule scan_fences_no_match)
    from post_location_ok [OF assms s, of st uid] s show ?thesis
      by simp
  qed
  have t: "scan_fences T p (pre @ f # post) = Inl e
          \<and> post_location T st uid location (Inr (pre @ f # post)) = (Status500, st)"
    if h: "\<forall>g\<in>set pre. isWithin T p g = Inr False" "isWithin T p f = Inl e"
  proof -
    have s: "scan_fences T p (pre @ f # post) = Inl e"
      using h by (rule scan_fences_first_throw)
    from post_location_threw [OF assms s, of st uid] s show ?thesis
      by simp
  qed
  note c = scan_fences_found [of T p fs i]
  note d = scan_fences_missed [of T p fs i]
  note g = get_geofences_first_match [of pre uid T p f post]
  note k = scan_fences_threw [of T p fs e]
  from a b have ab:
    "((\<forall>g\<in>set pre. isWithin T p g = Inr False) \<and> isWithin T p f = Inr True \<longrightarrow>
            scan_fences T p (pre @ f # post) = Inr (True, Some (fence_id f))
          \<and> post_location T st uid location (Inr (pre @ f # post)) =
              (Status200 \<lparr>trigger = classify Inside (previous_status st uid),
                          status = Inside,
                          fenceId = (if previous_status st uid \<noteq> Inside
                                     then Some (fence_id f) else None)\<rparr>,
               st(uid \<mapsto> Inside)))
       \<and> ((\<forall>g\<in>set fs. isWithin T p g = Inr False) \<longrightarrow>
            scan_fences T p fs = Inr (False, None)
          \<and> post_location T st uid location (Inr fs) =
              (Status200 \<lparr>trigger = classify Outside (previous_status st uid),
                          status = Outside, fenceId = None\<rparr>,
               st(uid \<mapsto> Outside)))"
    by blast
  from c d g have cdg:
    "(scan_fences T p fs = Inr (True, i) \<longrightarrow>
            (\<exists>pre f post. fs = pre @ f # post
               \<and> (\<forall>g\<in>set pre. isWithin T p g = Inr False)
               \<and> isWithin T p f = Inr True \<and> i = Some (fence_id f)))
       \<and> (scan_fences T p fs = Inr (False, i) \<longrightarrow>
            i = None \<and> (\<forall>g\<in>set fs. isWithin T p g = Inr False))
       \<and> ((\<forall>g\<in>set pre. userId g = uid \<longrightarrow> isWithin T p g = Inr False)
            \<and> userId f = uid \<and> isWithin T p f = Inr True \<longrightarrow>
            scan_fences T p (get_geofences (pre @ f # post) uid)
              = Inr (True, Some (fence_id f)))"
    by blast
  from t k have tk:
    "((\<forall>g\<in>set pre. isWithin T p g = Inr False) \<and> isWithin T p f = Inl e \<longrightarrow>
            scan_fences T p (pre @ f # post) = Inl e
          \<and> post_location T st uid location (Inr (pre @ f # post)) = (Status500, st))
       \<and> (scan_fences T p fs = Inl e \<longrightarrow>
            (\<exists>pre f post. fs = pre @ f # post
               \<and> (\<forall>g\<in>set pre. isWithin T p g = Inr False)
               \<and> isWithin T p f = Inl e))"
    by blast
  from ab cdg tk show ?thesis by simp
qed

theorem first_match_wins_witness:
  "\<not> location_invalid far_away
   \<and> isWithin grid_turf (-0.09, 51.60) fenceA = Inr False
   \<and> isWithin grid_turf (-0.09, 51.60) fenceB = Inr True
   \<and> userId fenceB = 7
   \<and> post_location grid_turf [7 \<mapsto> Outside] 7 far_away
        (Inr ([fenceA] @ fenceB # [broken_fence, fenceB\<lparr>fence_id := 4\<rparr>]))
      = (Status200 \<lparr>trigger = Enter, status = Inside, fenceId = Some 2\<rparr>, [7 \<mapsto> Inside])
   \<and> post_location grid_turf [7 \<mapsto> Outside] 7 far_away (Inr [fenceA])
      = (Status200 \<lparr>trigger = NoTrigger, status = Outside, fenceId = None\<rparr>,
         [7 \<mapsto> Outside])
   \<and> scan_fences grid_turf (-0.09, 51.60)
        (get_geofences ([fenceA] @ fenceB # [fenceB\<lparr>fence_id := 4\<rparr>]) 7)
      = Inr (True, Some 2)
   \<and> isWithin grid_turf (-0.09, 51.60) broken_fence = Inl GeometryError
   \<and> post_location grid_turf [7 \<mapsto> Outside] 7 far_away
        (Inr ([fenceA] @ broken_fence # [fenceB]))
      = (Status500, [7 \<mapsto> Outside])"
proof -
  have v: "\<not> location_invalid far_away"
    by (simp add: location_invalid_def far_away_def)
  have u: "point grid_turf [js_at (array_items far_away) 1, js_at (array_items far_away) 0]
             = Inr (-0.09, 51.60)"
    by (simp add: example_defs js_at_def)
  have 1: "\<forall>g\<in>set [fenceA]. isWithin grid_turf (-0.09, 51.60) g = Inr False"
    by (simp add: isWithin_def js_at_def example_defs)
  have 2: "isWithin grid_turf (-0.09, 51.60) fenceB = Inr True"
    by (simp add: isWithin_def js_at_def example_defs)
  have 3: "userId fenceB = 7"
    by (simp add: fenceB_def)
  have 4: "\<forall>g\<in>set [fenceA]. userId g = 7 \<longrightarrow> isWithin grid_turf (-0.09, 51.60) g = Inr False"
    using 1 by simp
  have 5: "fence_id fenceB = 2" "previous_status [7 \<mapsto> Outside] 7 = Outside"
    by (simp_all add: fenceB_def previous_status_def)
  from first_match_wins [OF v u, of "[fenceA]" fenceB
      "[broken_fence, fenceB\<lparr>fence_id := 4\<rparr>]" "[7 \<mapsto> Outside]" 7 "[fenceA]" None
      GeometryError] 1 2 5
  have 6: "post_location grid_turf [7 \<mapsto> Outside] 7 far_away
        (Inr ([fenceA] @ fenceB # [broken_fence, fenceB\<lparr>fence_id := 4\<rparr>]))
      = (Status200 \<lparr>trigger = Enter, status = Inside, fenceId = Some 2\<rparr>, [7 \<mapsto> Inside])"
    and 7: "post_location grid_turf [7 \<mapsto> Outside] 7 far_away (Inr [fenceA])
      = (Status200 \<lparr>trigger = NoTrigger, status = Outside, fenceId = None\<rparr>,
         [7 \<mapsto> Outside])"
    by (simp_all add: classify_def)
  from first_match_wins [OF v u, of "[fenceA]" fenceB
      "[fenceB\<lparr>fence_id := 4\<rparr>]" "[7 \<mapsto> Outside]" 7 "[fenceA]" None GeometryError]
    2 3 4 5
  have 8: "scan_fences grid_turf (-0.09, 51.60)
        (get_geofences ([fenceA] @ fenceB # [fenceB\<lparr>fence_id := 4\<rparr>]) 7)
      = Inr (True, Some 2)"
    by simp
  have 9: "isWithin grid_turf (-0.09, 51.60) broken_fence = Inl GeometryError"
    by (simp add: isWithin_def js_at_def example_defs)
  from first_match_wins [OF v u, of "[fenceA]" broken_fence "[fenceB]" "[7 \<mapsto> Outside]" 7
      "[fenceA]" None GeometryError] 1 9
  have 10: "post_location grid_turf [7 \<mapsto> Outside] 7 far_away
        (Inr ([fenceA] @ broken_fence # [fenceB]))
      = (Status500, [7 \<mapsto> Outside])"
    by blast
  from v 1 2 3 6 7 8 9 10 show ?thesis by simp
qed

section \<open>Validation of the location\<close>

lemma location_invalid_iff: "location_invalid location \<longleftrightarrow> \<not> (\<exists>a b. location = JArr [a, b])"
proof (cases location)
  case (JArr xs)
  have "length xs = 2 \<longleftrightarrow> (\<exists>a b. xs = [a, b])"
    by (cases xs; cases "tl xs") (auto simp: length_Suc_conv)
  with JArr show ?thesis by (simp add: location_invalid_def)
qed (simp_all add: location_invalid_def)

lemma post_location_invalid:
  "location_invalid location \<Longrightarrow> post_location T st uid location reply = (Status400, st)"
  by (simp add: post_location_def)

lemma post_location_400_iff:
  "fst (post_location T st uid location reply) = Status400 \<longleftrightarrow> location_invalid location"
  by (auto simp: post_location_def after_fetch_def split: sum.splits prod.splits)

text \<open>
  Claim C5 says that a point whose latitude or longitude is outside its range is refused
  before anything else. The guard looks at the shape of the value only: the report
  \<open>[91, 181]\<close> passes it, and with a user that has no fence the handler answers with a
  result and writes \<open>Outside\<close> for the user.
\<close>

theorem range_not_checked_counterexample:
  "\<not> location_invalid out_of_range
   \<and> post_location grid_turf Map.empty 7 out_of_range (Inr [])
      = (Status200 \<lparr>trigger = NoTrigger, status = Outside, fenceId = None\<rparr>,
         [7 \<mapsto> Outside])"
  by (simp add: handler_defs example_defs)

text \<open>
  Claim C5, amended. A location that is absent, is not an array or has not exactly two
  elements is refused with status 400 before anything else: the answer does not depend on
  what the geofence service would reply, no request to it is left pending, the table is
  unchanged and no result is produced.
\<close>

theorem malformed_location_rejected:
  assumes "location_invalid location"
  shows "post_location T st uid location reply = (Status400, st)
       \<and> step T s (Arrive rid uid location) = s\<lparr>sent := sent s @ [(rid, uid, Status400)]\<rparr>
       \<and> table (step T s (Arrive rid uid location)) = table s
       \<and> pending (step T s (Arrive rid uid location)) = pending s"
  using assms by (simp add: post_location_def)

theorem malformed_location_rejected_witness:
  "location_invalid (JArr [JNum (Finite 91)])
   \<and> post_location grid_turf [7 \<mapsto> Inside] 7 (JArr [JNum (Finite 91)]) (Inr [fenceA])
      = (Status400, [7 \<mapsto> Inside])
   \<and> step grid_turf boot (Arrive 0 7 (JArr [JNum (Finite 91)]))
      = \<lparr>table = Map.empty, pending = [], sent = [(0, 7, Status400)]\<rparr>"
proof -
  have h: "location_invalid (JArr [JNum (Finite 91)])"
    by (simp add: location_invalid_def)
  from malformed_location_rejected [OF h, of grid_turf "[7 \<mapsto> Inside]" 7 "Inr [fenceA]" boot 0] h
  show ?thesis by (simp add: boot_def)
qed

text \<open>
  Claim C10 says that every array of two elements, whatever the elements, passes the
  guard and goes on to the fence lookup and to the write of the state. The first two hold;
  the write is reached only if the geometry library makes a point of the two elements.
  With a library that refuses what is not a number, as the stand-in does, the report
  \<open>["north", "east"]\<close> passes the guard, the fences arrive, and the handler ends in
  its \<^verbatim>\<open>catch\<close> block: status 500, and the table still holds the old status.
\<close>

theorem non_numeric_location_counterexample:
  "\<not> location_invalid (JArr [JStr ''north'', JStr ''east''])
   \<and> post_location grid_turf [7 \<mapsto> Inside] 7 (JArr [JStr ''north'', JStr ''east''])
        (Inr [fenceA])
      = (Status500, [7 \<mapsto> Inside])"
  by (simp add: handler_defs example_defs)

text \<open>
  Claim C10, amended. The handler answers 400 exactly when the location is absent, is not
  an array or has not exactly two elements. An array of two elements, whatever they are
  (not numbers, or numbers outside the ranges), passes the guard and the geofence service
  is asked: the request waits for its answer, and the rest of the handler decides the
  response. When the fences arrive and the geometry library raises no exception, on the
  two elements or in the loop, the handler answers with a result and the status computed
  is written for the user. When the lookup fails, the library refuses the two elements,
  or the test of a fence throws, the handler answers with status 500 and writes nothing.
\<close>

theorem validation_checks_shape_only:
  "(location_invalid location \<longleftrightarrow>
      \<not> truthy location \<or> \<not> isArray location \<or> length (array_items location) \<noteq> 2)
   \<and> (location_invalid location \<longleftrightarrow> \<not> (\<exists>a b. location = JArr [a, b]))
   \<and> (fst (post_location T st uid location reply) = Status400 \<longleftrightarrow> location_invalid location)
   \<and> post_location T st uid (JArr [a, b]) reply = after_fetch T st uid (JArr [a, b]) reply
   \<and> step T s (Arrive rid uid (JArr [a, b]))
        = s\<lparr>pending := pending s @ [(rid, uid, JArr [a, b])]\<rparr>
   \<and> (point T [b, a] = Inr p \<and> scan_fences T p fs = Inr (hit, i) \<longrightarrow>
        snd (post_location T st uid (JArr [a, b]) (Inr fs))
          = st(uid \<mapsto> (if hit then Inside else Outside)))
   \<and> (point T [b, a] = Inr p \<and> scan_fences T p fs = Inr (hit, i) \<longrightarrow>
        (\<exists>res. fst (post_location T st uid (JArr [a, b]) (Inr fs)) = Status200 res
           \<and> status res = (if hit then Inside else Outside)))
   \<and> (point T [b, a] = Inl e \<longrightarrow>
        post_location T st uid (JArr [a, b]) (Inr fs) = (Status500, st))
   \<and> (point T [b, a] = Inr p \<and> scan_fences T p fs = Inl e \<longrightarrow>
        post_location T st uid (JArr [a, b]) (Inr fs) = (Status500, st))
   \<and> post_location T st uid (JArr [a, b]) (Inl e) = (Status500, st)"
proof -
  have v: "\<not> location_invalid (JArr [a, b])"
    by (simp add: location_invalid_def)
  have 1: "post_location T st uid (JArr [a, b]) reply = after_fetch T st uid (JArr [a, b]) reply"
    using v by (simp add: post_location_def)
  have 2: "step T s (Arrive rid uid (JArr [a, b]))
        = s\<lparr>pending := pending s @ [(rid, uid, JArr [a, b])]\<rparr>"
    using v by simp
  have 3: "snd (post_location T st uid (JArr [a, b]) (Inr fs))
          = st(uid \<mapsto> (if hit then Inside else Outside))"
    if "point T [b, a] = Inr p" "scan_fences T p fs = Inr (hit, i)"
  proof -
    have u: "point T [js_at (array_items (JArr [a, b])) 1, js_at (array_items (JArr [a, b])) 0]
               = Inr p"
      using that(1) by (simp add: js_at_def)
    from post_location_ok [OF v u that(2), of st uid] show ?thesis by simp
  qed
  have 4: "\<exists>res. fst (post_location T st uid (JArr [a, b]) (Inr fs)) = Status200 res
           \<and> status res = (if hit then Inside else Outside)"
    if "point T [b, a] = Inr p" "scan_fences T p fs = Inr (hit, i)"
  proof -
    have u: "point T [js_at (array_items (JArr [a, b])) 1, js_at (array_items (JArr [a, b])) 0]
               = Inr p"
      using that(1) by (simp add: js_at_def)
    from post_location_ok [OF v u that(2), of st uid] show ?thesis by simp
  qed
  have 5: "post_location T st uid (JArr [a, b]) (Inr fs) = (Status500, st)"
    if "point T [b, a] = Inl e"
  proof -
    have u: "point T [js_at (array_items (JArr [a, b])) 1, js_at (array_items (JArr [a, b])) 0]
               = Inl e"
      using that by (simp add: js_at_def)
    from v u show ?thesis by (rule post_location_refused)
  qed
  have 6: "post_location T st uid (JArr [a, b]) (Inr fs) = (Status500, st)"
    if "point T [b, a] = Inr p" "scan_fences T p fs = Inl e"
  proof -
    have u: "point T [js_at (array_items (JArr [a, b])) 1, js_at (array_items (JArr [a, b])) 0]
               = Inr p"
      using that(1) by (simp add: js_at_def)
    from v u that(2) show ?thesis by (rule post_location_threw)
  qed
  have 7: "post_location T st uid (JArr [a, b]) (Inl e) = (Status500, st)"
    using v by (simp add: post_location_def after_fetch_failed)
  have shape:
    "(location_invalid location \<longleftrightarrow>
        \<not> truthy location \<or> \<not> isArray location \<or> length (array_items location) \<noteq> 2)
     \<and> (location_invalid location \<longleftrightarrow> \<not> (\<exists>a b. location = JArr [a, b]))
     \<and> (fst (post_location T st uid location reply) = Status400
          \<longleftrightarrow> location_invalid location)"
    using location_invalid_iff [of location] post_location_400_iff [of T st uid location reply]
    by (simp add: location_invalid_def)
  from shape 1 2 3 4 5 6 7 show ?thesis by blast
qed

theorem validation_checks_shape_only_witness:
  "\<not> location_invalid out_of_range
   \<and> \<not> location_invalid (JArr [JStr ''a'', JNull])
   \<and> location_invalid (JObj [(''length'', JNum (Finite 2))])
   \<and> point grid_turf [JNum (Finite 181), JNum (Finite 91)] = Inr (181, 91)
   \<and> scan_fences grid_turf (181, 91) [fenceA] = Inr (False, None)
   \<and> post_location grid_turf Map.empty 7 out_of_range (Inr [fenceA])
        = (Status200 \<lparr>trigger = NoTrigger, status = Outside, fenceId = None\<rparr>,
           [7 \<mapsto> Outside])
   \<and> point grid_turf [JStr ''east'', JStr ''north''] = Inl GeometryError
   \<and> post_location grid_turf [7 \<mapsto> Inside] 7 (JArr [JStr ''north'', JStr ''east''])
        (Inr [fenceA])
        = (Status500, [7 \<mapsto> Inside])
   \<and> scan_fences grid_turf (181, 91) [broken_fence] = Inl GeometryError
   \<and> post_location grid_turf [7 \<mapsto> Inside] 7 out_of_range (Inr [broken_fence])
        = (Status500, [7 \<mapsto> Inside])"
proof -
  have 1: "point grid_turf [JNum (Finite 181), JNum (Finite 91)] = Inr (181, 91)"
    by (simp add: grid_turf_def)
  have 2: "scan_fences grid_turf (181, 91) [fenceA] = Inr (False, None)"
    by (simp add: isWithin_def js_at_def example_defs)
  have 3: "fst (post_location grid_turf Map.empty 7 out_of_range (Inr [fenceA]))
        = Status200 \<lparr>trigger = NoTrigger, status = Outside, fenceId = None\<rparr>"
    by (simp add: handler_defs example_defs)
  note w = validation_checks_shape_only [of out_of_range grid_turf Map.empty 7 "Inr [fenceA]"
      "JNum (Finite 91)" "JNum (Finite 181)" boot 0 "(181, 91)" "[fenceA]" False None
      GeometryError]
  have 4: "\<not> location_invalid out_of_range"
    using w by (simp add: out_of_range_def)
  from w 1 2
  have "snd (post_location grid_turf Map.empty 7 (JArr [JNum (Finite 91), JNum (Finite 181)])
               (Inr [fenceA]))
          = Map.empty(7 \<mapsto> (if False then Inside else Outside))"
    by blast
  then have 5: "snd (post_location grid_turf Map.empty 7 out_of_range (Inr [fenceA]))
              = [7 \<mapsto> Outside]"
    by (simp add: out_of_range_def)
  from validation_checks_shape_only [of "JArr [JStr ''a'', JNull]" grid_turf Map.empty 7
      "Inr [fenceA]" "JNum (Finite 91)" "JNum (Finite 181)" boot 0 "(181, 91)" "[fenceA]"
      False None GeometryError]
  have 6: "\<not> location_invalid (JArr [JStr ''a'', JNull])" by simp
  from validation_checks_shape_only [of "JObj [(''length'', JNum (Finite 2))]" grid_turf
      Map.empty 7 "Inr [fenceA]" "JNum (Finite 91)" "JNum (Finite 181)" boot 0 "(181, 91)"
      "[fenceA]" False None GeometryError]
  have 7: "location_invalid (JObj [(''length'', JNum (Finite 2))])" by simp
  from 3 5 have 8: "post_location grid_turf Map.empty 7 out_of_range (Inr [fenceA])
        = (Status200 \<lparr>trigger = NoTrigger, status = Outside, fenceId = None\<rparr>,
           [7 \<mapsto> Outside])"
    by (simp add: prod_eq_iff)
  have 9: "point grid_turf [JStr ''east'', JStr ''north''] = Inl GeometryError"
    by (simp add: grid_turf_def)
  from validation_checks_shape_only [of out_of_range grid_turf "[7 \<mapsto> Inside]" 7
      "Inr [fenceA]" "JStr ''north''" "JStr ''east''" boot 0 "(181, 91)" "[fenceA]" False None
      GeometryError] 9
  have 10: "post_location grid_turf [7 \<mapsto> Inside] 7 (JArr [JStr ''north'', JStr ''east''])
        (Inr [fenceA])
        = (Status500, [7 \<mapsto> Inside])"
    by blast
  have 11: "scan_fences grid_turf (181, 91) [broken_fence] = Inl GeometryError"
    by (simp add: isWithin_def js_at_def example_defs)
  from validation_checks_shape_only [of out_of_range grid_turf "[7 \<mapsto> Inside]" 7
      "Inr [fenceA]" "JNum (Finite 91)" "JNum (Finite 181)" boot 0 "(181, 91)" "[broken_fence]"
      False None GeometryError] 1 11
  have "post_location grid_turf [7 \<mapsto> Inside] 7 (JArr [JNum (Finite 91), JNum (Finite 181)])
        (Inr [broken_fence])
        = (Status500, [7 \<mapsto> Inside])"
    by blast
  then have 12: "post_location grid_turf [7 \<mapsto> Inside] 7 out_of_range (Inr [broken_fence])
        = (Status500, [7 \<mapsto> Inside])"
    by (simp add: out_of_range_def)
  from 1 2 4 6 7 8 9 10 11 12 show ?thesis by simp
qed

section \<open>What a call does to the table\<close>

lemma post_location_table:
  "snd (post_location T st uid location reply) = st
   \<or> snd (post_location T st uid location reply) = st(uid \<mapsto> Inside)
   \<or> snd (post_location T st uid location reply) = st(uid \<mapsto> Outside)"
  by (auto simp: post_location_def after_fetch_def detect_def Let_def
           split: sum.splits prod.splits)

lemma post_location_known:
  "previous_status st u \<noteq> Unknown
     \<Longrightarrow> previous_status (snd (post_location T st uid location reply)) u \<noteq> Unknown"
  using post_location_table [of T st uid location reply]
  by (auto simp: previous_status_def split: if_splits)

lemma serve_known:
  "previous_status st u \<noteq> Unknown
     \<Longrightarrow> previous_status (snd (serve T calls st)) u \<noteq> Unknown"
proof (induction calls arbitrary: st)
  case Nil
  then show ?case by simp
next
  case (Cons c calls)
  obtain uid location reply where c: "c = (uid, location, reply)"
    by (cases c) auto
  obtain r st' where p: "post_location T st uid location reply = (r, st')"
    by (cases "post_location T st uid location reply") auto
  from post_location_known [OF Cons.prems, of T uid location reply] p
  have "previous_status st' u \<noteq> Unknown" by simp
  from Cons.IH [OF this] c p show ?case
    by (auto split: prod.splits)
qed

lemma serve_append:
  "serve T (xs @ ys) st =
     (case serve T xs st of (rs, st') \<Rightarrow>
        (case serve T ys st' of (rs', st'') \<Rightarrow> (rs @ rs', st'')))"
  by (induction xs arbitrary: st) (auto split: prod.splits)

section \<open>The status \<open>Unknown\<close>\<close>

text \<open>
  Claim C7. \<open>Unknown\<close> is what is read for a user without an entry, and nothing else:
  a call leaves the table as it is or writes \<open>Inside\<close> or \<open>Outside\<close> for its
  user. After a call answered with a result, the status of the user is not
  \<open>Unknown\<close>, and a status that is not \<open>Unknown\<close> stays so through every further
  call, of any user and with any outcome, one call or many.
\<close>

theorem unknown_only_initial:
  "previous_status Map.empty u = Unknown
   \<and> (snd (post_location T st uid location reply) = st
        \<or> snd (post_location T st uid location reply) = st(uid \<mapsto> Inside)
        \<or> snd (post_location T st uid location reply) = st(uid \<mapsto> Outside))
   \<and> (post_location T st uid location reply = (Status200 r, st') \<longrightarrow>
        previous_status st' uid \<noteq> Unknown
        \<and> previous_status (snd (serve T calls st')) uid \<noteq> Unknown)
   \<and> (previous_status st u \<noteq> Unknown \<longrightarrow>
        previous_status (snd (post_location T st uid location reply)) u \<noteq> Unknown
        \<and> previous_status (snd (serve T calls st)) u \<noteq> Unknown)"
proof -
  have a: "previous_status Map.empty u = Unknown"
    by (simp add: previous_status_def)
  have b: "previous_status st' uid \<noteq> Unknown
        \<and> previous_status (snd (serve T calls st')) uid \<noteq> Unknown"
    if h: "post_location T st uid location reply = (Status200 r, st')"
  proof -
    from post_location_200 [OF h] obtain geofences where
      d: "detect T st uid location geofences = Inr (r, st')" by blast
    from detect_result [OF d] have k: "previous_status st' uid \<noteq> Unknown"
      by (auto simp: previous_status_def)
    from k serve_known [OF k] show ?thesis by simp
  qed
  from a b post_location_table [of T st uid location reply]
    post_location_known [of st u T uid location reply] serve_known [of st u T calls]
  show ?thesis by blast
qed

theorem unknown_only_initial_witness:
  "post_location grid_turf Map.empty 7 at_center (Inr [fenceA])
     = (Status200 \<lparr>trigger = Enter, status = Inside, fenceId = Some 1\<rparr>, [7 \<mapsto> Inside])
   \<and> previous_status [7 \<mapsto> Inside] 7 \<noteq> Unknown
   \<and> previous_status
        (snd (serve grid_turf
           [(7, far_away, Inl LookupFailed), (8, at_center, Inr []), (7, JNull, Inr []),
            (7, far_away, Inr [fenceA])]
           [7 \<mapsto> Inside])) 7 \<noteq> Unknown
   \<and> snd (serve grid_turf
           [(7, far_away, Inl LookupFailed), (8, at_center, Inr []), (7, JNull, Inr []),
            (7, far_away, Inr [fenceA])]
           [7 \<mapsto> Inside]) = [7 \<mapsto> Outside, 8 \<mapsto> Outside]"
proof -
  have h: "post_location grid_turf Map.empty 7 at_center (Inr [fenceA])
     = (Status200 \<lparr>trigger = Enter, status = Inside, fenceId = Some 1\<rparr>, [7 \<mapsto> Inside])"
    by (simp add: handler_defs example_defs)
  have k: "previous_status [7 \<mapsto> Inside] 7 \<noteq> Unknown"
    by (simp add: previous_status_def)
  have e: "snd (serve grid_turf
           [(7, far_away, Inl LookupFailed), (8, at_center, Inr []), (7, JNull, Inr []),
            (7, far_away, Inr [fenceA])]
           [7 \<mapsto> Inside]) = [7 \<mapsto> Outside, 8 \<mapsto> Outside]"
    by (simp add: handler_defs example_defs fun_upd_twist)
  from unknown_only_initial [of 7 grid_turf Map.empty 7 at_center "Inr [fenceA]"
      "\<lparr>trigger = Enter, status = Inside, fenceId = Some 1\<rparr>" "[7 \<mapsto> Inside]"
      "[(7, far_away, Inl LookupFailed), (8, at_center, Inr []), (7, JNull, Inr []),
        (7, far_away, Inr [fenceA])]"] h
  have "previous_status
        (snd (serve grid_turf
           [(7, far_away, Inl LookupFailed), (8, at_center, Inr []), (7, JNull, Inr []),
            (7, far_away, Inr [fenceA])]
           [7 \<mapsto> Inside])) 7 \<noteq> Unknown"
    by blast
  with h k e show ?thesis by simp
qed

section \<open>The entries of other users\<close>

text \<open>
  Claim C9. A call made for a user changes at most the entry of that user: the entry of
  every other user is the same after the call as before, whether the call is answered
  with a result, refused by the guard, or ends in the error of the \<^verbatim>\<open>catch\<close>
  block. A call that is not answered with a result changes no entry at all.
\<close>

theorem other_users_untouched:
  "(v \<noteq> uid \<longrightarrow> snd (post_location T st uid location reply) v = st v)
   \<and> (fst (post_location T st uid location reply) = Status400
        \<or> fst (post_location T st uid location reply) = Status500
        \<longrightarrow> snd (post_location T st uid location reply) = st)"
proof -
  have a: "snd (post_location T st uid location reply) v = st v" if "v \<noteq> uid"
    using post_location_table [of T st uid location reply] that by auto
  have b: "snd (post_location T st uid location reply) = st"
    if "fst (post_location T st uid location reply) = Status400
        \<or> fst (post_location T st uid location reply) = Status500"
    using that
    by (auto simp: post_location_def after_fetch_def split: sum.splits prod.splits if_splits)
  from a b show ?thesis by blast
qed

theorem other_users_untouched_witness:
  "(8::nat) \<noteq> 7
   \<and> snd (post_location grid_turf [7 \<mapsto> Inside, 8 \<mapsto> Inside] 7 far_away (Inr [fenceA])) 8
       = Some Inside
   \<and> snd (post_location grid_turf [7 \<mapsto> Inside, 8 \<mapsto> Inside] 7 far_away (Inr [fenceA])) 7
       = Some Outside
   \<and> fst (post_location grid_turf [7 \<mapsto> Inside, 8 \<mapsto> Inside] 7 far_away (Inl LookupFailed))
       = Status500
   \<and> snd (post_location grid_turf [7 \<mapsto> Inside, 8 \<mapsto> Inside] 7 far_away (Inl LookupFailed))
       = [7 \<mapsto> Inside, 8 \<mapsto> Inside]"
proof -
  have n: "(8::nat) \<noteq> 7" by simp
  have 1: "snd (post_location grid_turf [7 \<mapsto> Inside, 8 \<mapsto> Inside] 7 far_away
                  (Inr [fenceA])) 7 = Some Outside"
    by (simp add: handler_defs example_defs)
  have 2: "fst (post_location grid_turf [7 \<mapsto> Inside, 8 \<mapsto> Inside] 7 far_away
                  (Inl LookupFailed)) = Status500"
    by (simp add: handler_defs example_defs)
  from other_users_untouched [of 8 7 grid_turf "[7 \<mapsto> Inside, 8 \<mapsto> Inside]" far_away
      "Inr [fenceA]"] n
  have 3: "snd (post_location grid_turf [7 \<mapsto> Inside, 8 \<mapsto> Inside] 7 far_away
                  (Inr [fenceA])) 8 = Some Inside"
    by simp
  from other_users_untouched [of 8 7 grid_turf "[7 \<mapsto> Inside, 8 \<mapsto> Inside]" far_away
      "Inl LookupFailed"] 2
  have 4: "snd (post_location grid_turf [7 \<mapsto> Inside, 8 \<mapsto> Inside] 7 far_away
                  (Inl LookupFailed)) = [7 \<mapsto> Inside, 8 \<mapsto> Inside]"
    by simp
  from n 1 2 3 4 show ?thesis by simp
qed

section \<open>Reports of one user handled at the same time\<close>

lemma run_Nil: "run T s [] = s"
  by (simp add: run_def)

lemma run_snoc: "run T s (events @ [e]) = step T (run T s events) e"
  by (simp add: run_def)

lemma arrived_append: "arrived (xs @ ys) = arrived xs @ arrived ys"
  by (induction xs rule: arrived.induct) simp_all

lemma edges_append: "edges u (xs @ ys) = edges u xs @ edges u ys"
  by (induction u xs rule: edges.induct) simp_all

lemma serve_snoc:
  assumes "serve T calls st0 = (rs, st)"
    and "post_location T st uid location reply = (r, st')"
  shows "serve T (calls @ [(uid, location, reply)]) st0 = (rs @ [r], st')"
  using assms by (simp add: serve_append)

lemma find_pending:
  assumes "find (\<lambda>entry. fst entry = rid) xs = Some (rid', uid, location)"
  shows "(rid', uid, location) \<in> set xs" and "rid' = rid"
  using assms by (induction xs) (auto split: if_splits)

text \<open>What one piece of JavaScript does to the server.\<close>

lemma step_Arrive_invalid:
  "location_invalid location \<Longrightarrow>
     step T s (Arrive rid uid location) = s\<lparr>sent := sent s @ [(rid, uid, Status400)]\<rparr>"
  by simp

lemma step_Arrive_valid:
  "\<not> location_invalid location \<Longrightarrow>
     step T s (Arrive rid uid location) = s\<lparr>pending := pending s @ [(rid, uid, location)]\<rparr>"
  by simp

lemma step_Settle_none:
  "find (\<lambda>entry. fst entry = rid) (pending s) = None \<Longrightarrow> step T s (Settle rid reply) = s"
  by simp

lemma step_Settle_some:
  assumes "find (\<lambda>entry. fst entry = rid) (pending s) = Some (rid', uid, location)"
    and "after_fetch T (table s) uid location reply = (r, st')"
  shows "step T s (Settle rid reply) =
           \<lparr>table = st', pending = remove1 (rid', uid, location) (pending s),
            sent = sent s @ [(rid, uid, r)]\<rparr>"
  using assms by simp

lemma run_pending_valid:
  "(rid, uid, location) \<in> set (pending (run T boot events)) \<Longrightarrow> \<not> location_invalid location"
proof (induction events arbitrary: rid uid location rule: rev_induct)
  case Nil
  then show ?case by (simp add: run_Nil boot_def)
next
  case (snoc e events)
  show ?case
  proof (cases e)
    case (Arrive rid' uid' location')
    with snoc show ?thesis
      by (auto simp: run_snoc split: if_splits)
  next
    case (Settle rid' reply)
    show ?thesis
    proof (cases "find (\<lambda>entry. fst entry = rid') (pending (run T boot events))")
      case None
      with snoc Settle show ?thesis by (simp add: run_snoc)
    next
      case (Some entry)
      obtain a b c where entry: "entry = (a, b, c)" by (cases entry) auto
      obtain r st' where af: "after_fetch T (table (run T boot events)) b c reply = (r, st')"
        by (cases "after_fetch T (table (run T boot events)) b c reply") auto
      from snoc.prems Settle Some entry af
      have "(rid, uid, location) \<in> set (remove1 (a, b, c) (pending (run T boot events)))"
        by (simp add: run_snoc)
      then have "(rid, uid, location) \<in> set (pending (run T boot events))"
        using set_remove1_subset [of "(a, b, c)" "pending (run T boot events)"] by blast
      then show ?thesis by (rule snoc.IH)
    qed
  qed
qed


lemma run_serialised: "\<exists>calls. serialises T calls events (run T boot events)"
proof (induction events rule: rev_induct)
  case Nil
  have "serialises T [] [] (run T boot [])"
    by (simp add: serialises_def run_Nil boot_def)
  then show ?case by blast
next
  case (snoc e events)
  let ?s = "run T boot events"
  from snoc obtain calls where c: "serialises T calls events ?s" by blast
  from c have sv: "serve T (map snd calls) Map.empty = (map (snd \<circ> snd) (sent ?s), table ?s)"
    and ids: "map (\<lambda>(rid, uid, location, reply). (rid, uid)) calls
                = map (\<lambda>(rid, uid, r). (rid, uid)) (sent ?s)"
    and ms: "mset (map (\<lambda>(rid, uid, location, reply). (rid, uid, location)) calls)
               + mset (pending ?s) = mset (arrived events)"
    by (simp_all add: serialises_def)
  show ?case
  proof (cases e)
    case (Arrive rid uid location)
    have ar: "arrived (events @ [e]) = arrived events @ [(rid, uid, location)]"
      using Arrive by (simp add: arrived_append)
    show ?thesis
    proof (cases "location_invalid location")
      case True
      have st: "run T boot (events @ [e]) = ?s\<lparr>sent := sent ?s @ [(rid, uid, Status400)]\<rparr>"
        using Arrive True by (simp add: run_snoc)
      have "post_location T (table ?s) uid location (Inl LookupFailed) = (Status400, table ?s)"
        using True by (rule post_location_invalid)
      from serve_snoc [OF sv this]
      have "serialises T (calls @ [(rid, uid, location, Inl LookupFailed)]) (events @ [e])
              (run T boot (events @ [e]))"
        using ids ms by (simp add: serialises_def st ar)
      then show ?thesis by blast
    next
      case False
      have st: "run T boot (events @ [e]) = ?s\<lparr>pending := pending ?s @ [(rid, uid, location)]\<rparr>"
        using Arrive False by (simp add: run_snoc)
      have "serialises T calls (events @ [e]) (run T boot (events @ [e]))"
        using sv ids ms by (simp add: serialises_def st ar)
      then show ?thesis by blast
    qed
  next
    case (Settle rid reply)
    have ar: "arrived (events @ [e]) = arrived events"
      using Settle by (simp add: arrived_append)
    show ?thesis
    proof (cases "find (\<lambda>entry. fst entry = rid) (pending ?s)")
      case None
      have "run T boot (events @ [e]) = ?s"
        using Settle None by (simp add: run_snoc)
      with c ar have "serialises T calls (events @ [e]) (run T boot (events @ [e]))"
        by (simp add: serialises_def)
      then show ?thesis by blast
    next
      case (Some entry)
      obtain rid' uid location where entry: "entry = (rid', uid, location)"
        by (cases entry) auto
      from Some entry have f: "find (\<lambda>entry. fst entry = rid) (pending ?s)
                                 = Some (rid', uid, location)"
        by simp
      note m = find_pending [OF f]
      obtain r st' where af: "after_fetch T (table ?s) uid location reply = (r, st')"
        by (cases "after_fetch T (table ?s) uid location reply") auto
      have st: "run T boot (events @ [e]) =
                  \<lparr>table = st', pending = remove1 (rid, uid, location) (pending ?s),
                   sent = sent ?s @ [(rid, uid, r)]\<rparr>"
        using Settle step_Settle_some [OF f af] m(2) by (simp add: run_snoc)
      have "\<not> location_invalid location"
        using m(1) by (rule run_pending_valid)
      with af have "post_location T (table ?s) uid location reply = (r, st')"
        by (simp add: post_location_def)
      note sv' = serve_snoc [OF sv this]
      have "(rid, uid, location) \<in># mset (pending ?s)"
        using m by simp
      then have ms': "mset (map (\<lambda>(rid, uid, location, reply). (rid, uid, location)) calls)
                + add_mset (rid, uid, location) (mset (pending ?s) - {#(rid, uid, location)#})
                = mset (arrived events)"
        using ms by simp
      have "serialises T (calls @ [(rid, uid, location, reply)]) (events @ [e])
              (run T boot (events @ [e]))"
        using sv' ids ms' by (simp add: serialises_def st ar)
      then show ?thesis by blast
    qed
  qed
qed


lemma after_fetch_cases:
  assumes "after_fetch T st uid location reply = (r, st')"
  shows "(st' = st \<and> r = Status500)
       \<or> (\<exists>res. r = Status200 res \<and> st' = st(uid \<mapsto> status res)
             \<and> (status res = Inside \<or> status res = Outside)
             \<and> trigger res = classify (status res) (previous_status st uid))"
proof (cases reply)
  case (Inl e)
  with assms show ?thesis by (simp add: after_fetch_def)
next
  case (Inr geofences)
  show ?thesis
  proof (cases "detect T st uid location geofences")
    case (Inl e)
    with Inr assms show ?thesis by (simp add: after_fetch_def)
  next
    case (Inr b)
    obtain res st'' where b: "b = (res, st'')" by (cases b) auto
    from Inr b \<open>reply = Inr geofences\<close> assms
    have e: "r = Status200 res" "st' = st''" by (simp_all add: after_fetch_def)
    from Inr b have "detect T st uid location geofences = Inr (res, st'')" by simp
    from detect_result [OF this] e show ?thesis by blast
  qed
qed

lemma edges_alternate_step:
  assumes "distinct_adj (edges u lg)"
    and "previous_status st u = Inside \<longleftrightarrow> edges u lg \<noteq> [] \<and> last (edges u lg) = Enter"
    and "status res = Inside \<or> status res = Outside"
    and "trigger res = classify (status res) (previous_status st uid)"
  shows "distinct_adj (edges u (lg @ [(rid, uid, Status200 res)]))"
    and "previous_status (st(uid \<mapsto> status res)) u = Inside \<longleftrightarrow>
           edges u (lg @ [(rid, uid, Status200 res)]) \<noteq> []
           \<and> last (edges u (lg @ [(rid, uid, Status200 res)])) = Enter"
  using assms
  by (auto simp: edges_append distinct_adj_append_iff classify_def previous_status_def
           split: if_splits)

lemma run_edges:
  "distinct_adj (edges u (sent (run T boot events)))
   \<and> (previous_status (table (run T boot events)) u = Inside \<longleftrightarrow>
        edges u (sent (run T boot events)) \<noteq> []
        \<and> last (edges u (sent (run T boot events))) = Enter)"
proof (induction events rule: rev_induct)
  case Nil
  show ?case by (simp add: run_Nil boot_def previous_status_def)
next
  case (snoc e events)
  let ?s = "run T boot events"
  from snoc have d: "distinct_adj (edges u (sent ?s))"
    and i: "previous_status (table ?s) u = Inside \<longleftrightarrow>
              edges u (sent ?s) \<noteq> [] \<and> last (edges u (sent ?s)) = Enter"
    by simp_all
  show ?case
  proof (cases e)
    case (Arrive rid uid location)
    with d i show ?thesis
      by (simp add: run_snoc edges_append)
  next
    case (Settle rid reply)
    show ?thesis
    proof (cases "find (\<lambda>entry. fst entry = rid) (pending ?s)")
      case None
      with Settle d i show ?thesis by (simp add: run_snoc)
    next
      case (Some entry)
      obtain rid' uid location where entry: "entry = (rid', uid, location)"
        by (cases entry) auto
      from Some entry have f: "find (\<lambda>entry. fst entry = rid) (pending ?s)
                                 = Some (rid', uid, location)"
        by simp
      obtain r st' where af: "after_fetch T (table ?s) uid location reply = (r, st')"
        by (cases "after_fetch T (table ?s) uid location reply") auto
      have st: "run T boot (events @ [e]) =
                  \<lparr>table = st', pending = remove1 (rid', uid, location) (pending ?s),
                   sent = sent ?s @ [(rid, uid, r)]\<rparr>"
        using Settle step_Settle_some [OF f af] by (simp add: run_snoc)
      from after_fetch_cases [OF af] show ?thesis
      proof
        assume "st' = table ?s \<and> r = Status500"
        with d i show ?thesis by (simp add: st edges_append)
      next
        assume "\<exists>res. r = Status200 res \<and> st' = (table ?s)(uid \<mapsto> status res)
             \<and> (status res = Inside \<or> status res = Outside)
             \<and> trigger res = classify (status res) (previous_status (table ?s) uid)"
        then obtain res where r: "r = Status200 res"
          and t: "st' = (table ?s)(uid \<mapsto> status res)"
          and io: "status res = Inside \<or> status res = Outside"
          and tr: "trigger res = classify (status res) (previous_status (table ?s) uid)"
          by blast
        have sent': "sent (run T boot (events @ [e])) = sent ?s @ [(rid, uid, Status200 res)]"
          and table': "table (run T boot (events @ [e])) = (table ?s)(uid \<mapsto> status res)"
          using st r t by simp_all
        from edges_alternate_step [OF d i io tr, of rid] show ?thesis
          unfolding sent' table' by blast
      qed
    qed
  qed
qed


text \<open>
  Claim C6. The status before is read, the new status computed and written in the second
  piece of the handler, after its only \<^verbatim>\<open>await\<close>, and that piece runs to its end
  before any other: the three form one step. Whatever the order in which requests arrive
  and the geofence service answers, the responses sent and the final table are those of
  the same calls made one after the other, in the order of the answers; each call finds
  the status the call answered just before it wrote for the user. So two calls never both
  fire \<open>Enter\<close> on the same status: in the responses of one user two \<open>Enter\<close> are
  always separated by an \<open>Exit\<close>, and the last of the two events tells the status in
  the table.
\<close>

theorem reports_serialised:
  "(\<exists>calls. serialises T calls events (run T boot events))
   \<and> distinct_adj (edges u (sent (run T boot events)))
   \<and> (previous_status (table (run T boot events)) u = Inside \<longleftrightarrow>
        edges u (sent (run T boot events)) \<noteq> []
        \<and> last (edges u (sent (run T boot events))) = Enter)"
  using run_serialised [of T events] run_edges [of u T events] by blast

lemma racing_run:
  "run grid_turf boot racing =
     \<lparr>table = [7 \<mapsto> Inside], pending = [],
      sent = [(2, 7, Status200 \<lparr>trigger = Enter, status = Inside, fenceId = Some 1\<rparr>),
              (1, 7, Status200 \<lparr>trigger = NoTrigger, status = Inside, fenceId = None\<rparr>)]\<rparr>"
  by (simp add: run_def racing_def boot_def after_fetch_def detect_def js_at_def isWithin_def
        previous_status_def classify_def location_invalid_def example_defs)

theorem reports_serialised_witness:
  "run grid_turf boot racing =
     \<lparr>table = [7 \<mapsto> Inside], pending = [],
      sent = [(2, 7, Status200 \<lparr>trigger = Enter, status = Inside, fenceId = Some 1\<rparr>),
              (1, 7, Status200 \<lparr>trigger = NoTrigger, status = Inside, fenceId = None\<rparr>)]\<rparr>
   \<and> serialises grid_turf
        [(2, 7, at_center, Inr [fenceA]), (1, 7, at_center, Inr [fenceA])]
        racing (run grid_turf boot racing)
   \<and> edges 7 (sent (run grid_turf boot racing)) = [Enter]
   \<and> distinct_adj (edges 7 (sent (run grid_turf boot racing)))"
proof -
  note r = racing_run
  have s: "serialises grid_turf
        [(2, 7, at_center, Inr [fenceA]), (1, 7, at_center, Inr [fenceA])]
        racing (run grid_turf boot racing)"
    unfolding r by (simp add: serialises_def racing_def handler_defs example_defs)
  have e: "edges 7 (sent (run grid_turf boot racing)) = [Enter]"
    unfolding r by simp
  from reports_serialised [of grid_turf racing 7]
  have "distinct_adj (edges 7 (sent (run grid_turf boot racing)))" by blast
  with r s e show ?thesis by simp
qed

end
